theory Spec2Isabelle
  imports Complex_Main
begin

section \<open>Data model\<close>

text \<open>
  One line of the tab-separated summary file as \<open>pd.read_csv\<close> hands it over: a field
  that is empty in the file is a missing value (\<open>None\<close>). The eight named fields are the
  columns the class reads; \<open>raw_other\<close> holds the values of all other columns the file has
  (such as \<open>filename\<close>). Python integers are modelled as \<open>int\<close>, with the wrap-around of
  the 64-bit column sums written out where the code sums a column. Python floats are
  modelled as reals. The model gives what the program computes wherever rounding does not
  change the result of a comparison; this is so in the examples below, whose window and
  bin edges (0, 0.25, 0.5, 16, 32, 1000, 2000) are exact in floating point and whose other
  values are far from every edge. It makes no statement about the effect of rounding.
\<close>

record raw_row =
  raw_read_id :: "string option"
  raw_run_id :: "string option"
  raw_channel :: "int option"
  raw_start_time :: "real option"
  raw_duration :: "real option"
  raw_sequence_length_template :: "int option"
  raw_mean_qscore_template :: "real option"
  raw_num_events :: "int option"
  raw_other :: "string option list"

text \<open>
  The parsed file: its lines, and whether it has the two columns that a summary file may
  lack, \<open>duration\<close> and \<open>num_events\<close>. In a file without one of them the field of that
  name is \<open>None\<close> in every line and is no missing value.
\<close>

record seq_summary =
  has_duration :: bool
  has_num_events :: bool
  lines :: "raw_row list"

text \<open>
  A row of the data frame once no field of it is missing. The field of a column that the
  file lacks holds 0 and is never read: the access to such a column raises \<open>KeyError\<close>.
\<close>

record read =
  read_id :: string
  run_id :: string
  channel :: int
  start_time :: real
  duration :: real
  sequence_length_template :: int
  mean_qscore_template :: real
  num_events :: int

text \<open>The exceptions the Python code can raise in the parts modelled here.\<close>

datatype py_error = KeyError | IndexError | NameError | UnboundLocalError
  | ValueError | OverflowError | ZeroDivisionError

text \<open>
  The object built by \<open>pycoQC.__init__\<close>: the rows of \<open>self.df\<close>, whether \<open>self.df\<close> has
  the columns \<open>duration\<close> and \<open>num_events\<close>, \<open>self.runid\<close> and \<open>self.total_reads\<close>
  (\<open>self.verbose\<close> and \<open>self.seq_summary_file\<close> only feed the printing and are left
  out).
\<close>

record pycoQC =
  df :: "read list"
  runid :: string
  total_reads :: int
  with_duration :: bool
  with_num_events :: bool

section \<open>The pandas and numpy operations the code calls\<close>

text \<open>
  \<open>DataFrame.dropna()\<close>, called without a subset: a row stays only if it has no missing
  value in any column of the file, the columns the class never reads included.
\<close>

definition no_missing :: "seq_summary \<Rightarrow> raw_row \<Rightarrow> bool" where
  "no_missing f r \<longleftrightarrow>
     raw_read_id r \<noteq> None \<and> raw_run_id r \<noteq> None \<and> raw_channel r \<noteq> None
     \<and> raw_start_time r \<noteq> None \<and> (has_duration f \<longrightarrow> raw_duration r \<noteq> None)
     \<and> raw_sequence_length_template r \<noteq> None \<and> raw_mean_qscore_template r \<noteq> None
     \<and> (has_num_events f \<longrightarrow> raw_num_events r \<noteq> None)
     \<and> None \<notin> set (raw_other r)"

text \<open>The value of a field, with the filler for the field of a column the file lacks.\<close>

definition field_value :: "'a \<Rightarrow> 'a option \<Rightarrow> 'a" where
  "field_value filler v = (case v of Some x \<Rightarrow> x | None \<Rightarrow> filler)"

definition to_read :: "raw_row \<Rightarrow> read" where
  "to_read r =
     \<lparr>read_id = field_value [] (raw_read_id r), run_id = field_value [] (raw_run_id r),
      channel = field_value 0 (raw_channel r), start_time = field_value 0 (raw_start_time r),
      duration = field_value 0 (raw_duration r),
      sequence_length_template = field_value 0 (raw_sequence_length_template r),
      mean_qscore_template = field_value 0 (raw_mean_qscore_template r),
      num_events = field_value 0 (raw_num_events r)\<rparr>"

definition dropna :: "seq_summary \<Rightarrow> read list" where
  "dropna f = map to_read (filter (no_missing f) (lines f))"

text \<open>The distinct values of a column, each at the place of its first appearance.\<close>

fun unique_first :: "'a list \<Rightarrow> 'a list" where
  "unique_first [] = []"
| "unique_first (x # xs) = x # filter (\<lambda>y. y \<noteq> x) (unique_first xs)"

text \<open>
  \<open>Series.value_counts(sort=...)\<close>: the number of rows of each distinct value, the
  values in the order of their first appearance. With \<open>sort=True\<close> the entries are sorted
  by descending count, and entries of equal count stay in the order of first appearance.
\<close>

definition value_counts :: "bool \<Rightarrow> 'a list \<Rightarrow> ('a \<times> int) list" where
  "value_counts sort_flag xs =
     (let s = map (\<lambda>k. (k, int (count_list xs k))) (unique_first xs)
      in if sort_flag then sort_key (\<lambda>p. - snd p) s else s)"

text \<open>\<open>Series.loc[key]\<close> on a series with distinct keys: \<open>KeyError\<close> for an absent key.\<close>

definition series_loc :: "('a \<times> 'b) list \<Rightarrow> 'a \<Rightarrow> py_error + 'b" where
  "series_loc s k = (case map_of s k of None \<Rightarrow> Inl KeyError | Some v \<Rightarrow> Inr v)"

text \<open>\<open>Index[0]\<close>: \<open>IndexError\<close> on an empty index.\<close>

definition index0 :: "('a \<times> 'b) list \<Rightarrow> py_error + 'a" where
  "index0 s = (case s of [] \<Rightarrow> Inl IndexError | (k, _) # _ \<Rightarrow> Inr k)"

text \<open>
  The sum of a 64-bit integer column (\<open>np.sum\<close>, \<open>Series.sum\<close>): the sum of the values
  reduced to the range of a signed 64-bit integer, as numpy does without an error.
\<close>

definition int64_sum :: "int list \<Rightarrow> int" where
  "int64_sum xs = (sum_list xs + 2 ^ 63) mod 2 ^ 64 - 2 ^ 63"

section \<open>Construction: \<open>pycoQC.__init__\<close>\<close>

text \<open>
  Python's \<open>not runid\<close>: true for \<open>None\<close> (the default) and for the empty string.
\<close>

definition not_runid :: "string option \<Rightarrow> bool" where
  "not_runid r = (case r of None \<Rightarrow> True | Some s \<Rightarrow> s = [])"

text \<open>
  \<open>__init__(self, seq_summary_file, runid=None, verbose=False)\<close> from the parsed file
  on: drop the incomplete rows, count the rows of each \<open>run_id\<close>, take the first run of
  the sorted counts when no run is asked for and the asked one otherwise, read its count
  with \<open>.loc\<close>, and keep the rows of that run in their order. \<open>set_index("read_id")\<close>
  only turns the column into the index; it checks nothing.
\<close>

definition init :: "seq_summary \<Rightarrow> string option \<Rightarrow> py_error + pycoQC" where
  "init seq_summary rid =
     (let d = dropna seq_summary;
          runid_counts = value_counts True (map run_id d)
      in case (if not_runid rid then index0 runid_counts
               else (case rid of Some s \<Rightarrow> Inr s | None \<Rightarrow> index0 runid_counts)) of
           Inl e \<Rightarrow> Inl e
         | Inr sel \<Rightarrow>
             (case series_loc runid_counts sel of
                Inl e \<Rightarrow> Inl e
              | Inr cnt \<Rightarrow>
                  Inr \<lparr>df = filter (\<lambda>r. run_id r = sel) d, runid = sel, total_reads = cnt,
                       with_duration = has_duration seq_summary,
                       with_num_events = has_num_events seq_summary\<rparr>))"

section \<open>Channel activity: \<open>channels_activity\<close>\<close>

text \<open>
  \<open>df.groupby("channel").aggregate(np.sum)[col]\<close>: one entry per channel present, in
  ascending channel order, holding the 64-bit sum of the column over the rows of the
  channel.
\<close>

definition groupby_sum :: "(read \<Rightarrow> int) \<Rightarrow> read list \<Rightarrow> (int \<times> int) list" where
  "groupby_sum col rows =
     map (\<lambda>k. (k, int64_sum (map col (filter (\<lambda>r. channel r = k) rows))))
       (sort (unique_first (map channel rows)))"

text \<open>
  The first part of the method (the three \<open>if level == ...\<close> statements). The
  \<open>"reads"\<close> branch reads \<open>self.df\<close>; the \<open>"bases"\<close> and \<open>"events"\<close> branches read
  \<open>n.df\<close>, where \<open>n\<close> is no parameter and no local: it is whatever the module-global
  name \<open>n\<close> is bound to (\<open>None\<close> here when it is unbound, which raises \<open>NameError\<close>).
  Selecting \<open>num_events\<close> from a frame without that column raises \<open>KeyError\<close>. With any
  other level no branch assigns \<open>s\<close> and its first use raises \<open>UnboundLocalError\<close>.
\<close>

definition level_series ::
  "pycoQC option \<Rightarrow> pycoQC \<Rightarrow> string \<Rightarrow> py_error + (int \<times> int) list" where
  "level_series n self level =
     (if level = ''reads'' then Inr (value_counts False (map channel (df self)))
      else if level = ''bases'' then
        (case n of None \<Rightarrow> Inl NameError
         | Some g \<Rightarrow> Inr (groupby_sum sequence_length_template (df g)))
      else if level = ''events'' then
        (case n of None \<Rightarrow> Inl NameError
         | Some g \<Rightarrow>
             if with_num_events g then Inr (groupby_sum num_events (df g))
             else Inl KeyError)
      else Inl UnboundLocalError)"

text \<open>
  The loop \<open>for i in range(1, 512): if i not in s.index: s.loc[i] = 0\<close>, over the list
  of the values of \<open>i\<close>: a missing key is appended with the value 0.
\<close>

fun fill_missing :: "int list \<Rightarrow> (int \<times> int) list \<Rightarrow> (int \<times> int) list" where
  "fill_missing [] s = s"
| "fill_missing (i # rest) s =
     fill_missing rest (if i \<notin> set (map fst s) then s @ [(i, 0)] else s)"

text \<open>\<open>range(1, 512)\<close>: the integers from 1 to 511.\<close>

definition range_1_512 :: "int list" where
  "range_1_512 = [1..511]"

text \<open>\<open>s.sort_index()\<close>.\<close>

definition sort_index :: "(int \<times> int) list \<Rightarrow> (int \<times> int) list" where
  "sort_index s = sort_key fst s"

text \<open>The series \<open>s\<close> as it stands after the filling loop and \<open>sort_index\<close>.\<close>

definition channel_series ::
  "pycoQC option \<Rightarrow> pycoQC \<Rightarrow> string \<Rightarrow> py_error + (int \<times> int) list" where
  "channel_series n self level =
     (case level_series n self level of
        Inl e \<Rightarrow> Inl e
      | Inr s \<Rightarrow> Inr (sort_index (fill_missing range_1_512 s)))"

text \<open>
  \<open>values.reshape(rows, cols)\<close>: \<open>ValueError\<close> unless the array has exactly
  \<open>rows * cols\<close> elements.
\<close>

definition reshape :: "nat \<Rightarrow> nat \<Rightarrow> 'a list \<Rightarrow> py_error + 'a list list" where
  "reshape rows cols xs =
     (if length xs = rows * cols
      then Inr (map (\<lambda>i. take cols (drop (i * cols) xs)) [0..<rows])
      else Inl ValueError)"

text \<open>The method up to the array \<open>a\<close> that is handed to the heat map.\<close>

definition channels_activity ::
  "pycoQC option \<Rightarrow> pycoQC \<Rightarrow> string \<Rightarrow> py_error + int list list" where
  "channels_activity n self level =
     (case channel_series n self level of
        Inl e \<Rightarrow> Inl e
      | Inr s \<Rightarrow> reshape 16 32 (map snd s))"

section \<open>Output and quality over time\<close>

text \<open>The column \<open>end_time = (start_time + duration) / 3600\<close>.\<close>

definition end_time :: "read \<Rightarrow> real" where
  "end_time r = (start_time r + duration r) / 3600"

text \<open>Python's \<open>max\<close> of a sequence: \<open>ValueError\<close> on an empty one.\<close>

definition py_max :: "'a::linorder list \<Rightarrow> py_error + 'a" where
  "py_max xs = (if xs = [] then Inl ValueError else Inr (Max (set xs)))"

text \<open>
  \<open>np.arange(start, stop, step)\<close> for a step other than 0: \<open>ceil((stop - start) / step)\<close>
  values \<open>start + i * step\<close>, none when that number is not positive. This is numpy's
  own rule, evaluated here without rounding: it is what \<open>np.arange\<close> returns whenever the
  quotient, the products and the sums are exact in floating point, as they are for bounds
  and steps like 0, 0.25, 0.5, 16, 40, 1000 or 3000.
\<close>

definition arange :: "real \<Rightarrow> real \<Rightarrow> real \<Rightarrow> real list" where
  "arange start stop step =
     map (\<lambda>i. start + real i * step) [0..<nat \<lceil>(stop - start) / step\<rceil>]"

text \<open>
  The row selection of the loop body,
  \<open>df[(df["end_time"] >= t) & (df["end_time"] < t + win_size)]\<close>.
\<close>

definition window_rows :: "read list \<Rightarrow> real \<Rightarrow> real \<Rightarrow> read list" where
  "window_rows d win_size t =
     filter (\<lambda>r. end_time r \<ge> t \<and> end_time r < t + win_size) d"

text \<open>
  The loop \<open>for t in np.arange(0, max(df["end_time"]), win_size)\<close> with the rows \<open>sdf\<close>
  it selects at each \<open>t\<close>. The stop value is a numpy float, so that a zero step gives an
  infinite length, which \<open>arange\<close> refuses with \<open>ValueError\<close>.
\<close>

definition time_windows :: "read list \<Rightarrow> real \<Rightarrow> py_error + (real \<times> read list) list" where
  "time_windows d win_size =
     (case py_max (map end_time d) of
        Inl e \<Rightarrow> Inl e
      | Inr m \<Rightarrow>
          if win_size = 0 then Inl ValueError
          else Inr (map (\<lambda>t. (t, window_rows d win_size t)) (arange 0 m win_size)))"

text \<open>
  \<open>output_over_time\<close>: the table \<open>df2\<close> with, for each window start, the number of rows,
  the 64-bit sum of \<open>sequence_length_template\<close> and the 64-bit sum of \<open>num_events\<close>.
  The method takes its rows from \<open>n.df\<close> (the module-global \<open>n\<close>), never from
  \<open>self\<close>; it selects the columns \<open>num_events\<close> and \<open>duration\<close> first, which raises
  \<open>KeyError\<close> on a frame that lacks one of them.
\<close>

definition output_table ::
  "pycoQC option \<Rightarrow> pycoQC \<Rightarrow> real \<Rightarrow> py_error + (real \<times> int \<times> int \<times> int) list" where
  "output_table n self win_size =
     (case n of
        None \<Rightarrow> Inl NameError
      | Some g \<Rightarrow>
          if \<not> with_num_events g \<or> \<not> with_duration g then Inl KeyError
          else
            (case time_windows (df g) win_size of
               Inl e \<Rightarrow> Inl e
             | Inr ws \<Rightarrow>
                 Inr (map (\<lambda>(t, sdf). (t, int (length sdf),
                                         int64_sum (map sequence_length_template sdf),
                                         int64_sum (map num_events sdf))) ws)))"

text \<open>The column \<open>df2[level]\<close> that is plotted: \<open>KeyError\<close> for an unknown level.\<close>

definition output_over_time ::
  "pycoQC option \<Rightarrow> pycoQC \<Rightarrow> string \<Rightarrow> real \<Rightarrow> py_error + (real \<times> int) list" where
  "output_over_time n self level win_size =
     (case output_table n self win_size of
        Inl e \<Rightarrow> Inl e
      | Inr df2 \<Rightarrow>
          if level = ''reads'' then Inr (map (\<lambda>(t, r, b, e). (t, r)) df2)
          else if level = ''bases'' then Inr (map (\<lambda>(t, r, b, e). (t, b)) df2)
          else if level = ''events'' then Inr (map (\<lambda>(t, r, b, e). (t, e)) df2)
          else Inl KeyError)"

text \<open>
  The statistics of one window in \<open>quality_over_time\<close>; \<open>None\<close> stands for the NaN that
  pandas returns on an empty selection. \<open>quantile\<close> interpolates linearly between the two
  neighbouring order statistics. The method adds the columns \<open>start_time\<close> and
  \<open>duration\<close> of \<open>self.df\<close>, which raises \<open>KeyError\<close> on a frame without \<open>duration\<close>.
\<close>

definition series_mean :: "real list \<Rightarrow> real option" where
  "series_mean xs = (if xs = [] then None else Some (sum_list xs / real (length xs)))"

definition series_min :: "real list \<Rightarrow> real option" where
  "series_min xs = (if xs = [] then None else Some (Min (set xs)))"

definition series_max :: "real list \<Rightarrow> real option" where
  "series_max xs = (if xs = [] then None else Some (Max (set xs)))"

definition quantile :: "real \<Rightarrow> real list \<Rightarrow> real option" where
  "quantile q xs =
     (if xs = [] then None
      else let s = sort xs;
               pos = q * real (length s - 1);
               j = nat \<lfloor>pos\<rfloor>;
               g = pos - real j
           in Some (if j + 1 < length s then s ! j + g * (s ! (j + 1) - s ! j) else s ! j))"

record window_stats =
  w_mean :: "real option"
  w_min :: "real option"
  w_max :: "real option"
  w_q1 :: "real option"
  w_q3 :: "real option"

definition quality_over_time :: "pycoQC \<Rightarrow> real \<Rightarrow> py_error + (real \<times> window_stats) list" where
  "quality_over_time self win_size =
     (if \<not> with_duration self then Inl KeyError
      else
        (case time_windows (df self) win_size of
           Inl e \<Rightarrow> Inl e
         | Inr ws \<Rightarrow>
             Inr (map (\<lambda>(t, rows).
                    let sdf = map mean_qscore_template rows
                    in (t, \<lparr>w_mean = series_mean sdf, w_min = series_min sdf,
                             w_max = series_max sdf, w_q1 = quantile (1/4) sdf,
                             w_q3 = quantile (3/4) sdf\<rparr>)) ws)))"

section \<open>Value distributions: \<open>mean_qual_distribution\<close>, \<open>reads_len_distribution\<close>\<close>

text \<open>
  \<open>np.histogram(a, bins)\<close> for an array of bin edges, as numpy 1.13 computes it:
  edges that decrease somewhere are refused; otherwise the number of values below each
  edge but the last (\<open>searchsorted(bins[:-1], 'left')\<close>) and the number of values up to
  and including the last edge (\<open>searchsorted(bins[-1], 'right')\<close>) are taken, and the
  counts are the differences of neighbours. So every bin is half-open but the last, which
  is closed, and a value outside the edges is in no bin. With no data the loop over the
  data does not run and all counts are 0; with data and no edge, \<open>bins[-1]\<close> raises
  \<open>IndexError\<close>.
\<close>

definition searchsorted_left :: "real list \<Rightarrow> real \<Rightarrow> int" where
  "searchsorted_left a e = int (length (filter (\<lambda>v. v < e) a))"

definition searchsorted_right :: "real list \<Rightarrow> real \<Rightarrow> int" where
  "searchsorted_right a e = int (length (filter (\<lambda>v. v \<le> e) a))"

fun np_diff :: "int list \<Rightarrow> int list" where
  "np_diff (x # y # rest) = (y - x) # np_diff (y # rest)"
| "np_diff _ = []"

definition histogram :: "real list \<Rightarrow> real list \<Rightarrow> py_error + int list" where
  "histogram a bins =
     (if \<not> sorted bins then Inl ValueError
      else if a = [] then Inr (np_diff (map (\<lambda>e. 0) bins))
      else if bins = [] then Inl IndexError
      else Inr (np_diff (map (searchsorted_left a) (butlast bins)
                         @ [searchsorted_right a (last bins)])))"

text \<open>
  \<open>mean_qual_distribution\<close> with \<open>normed=False\<close>: the bin edges and the counts of the
  histogram. The edges are \<open>np.arange(0, 40, win_size)\<close> whatever \<open>xmin\<close> and \<open>xmax\<close>
  are: these two only set the limits of the x axis. All three arguments of \<open>arange\<close> are
  Python numbers here, so that a zero \<open>win_size\<close> is a \<open>ZeroDivisionError\<close>.
\<close>

definition mean_qual_distribution ::
  "pycoQC \<Rightarrow> real \<Rightarrow> real \<Rightarrow> real \<Rightarrow> py_error + real list \<times> int list" where
  "mean_qual_distribution self win_size xmin xmax =
     (if win_size = 0 then Inl ZeroDivisionError
      else let bins = arange 0 40 win_size
           in case histogram (map mean_qscore_template (df self)) bins of
                Inl e \<Rightarrow> Inl e
              | Inr counts \<Rightarrow> Inr (bins, counts))"

text \<open>Python's \<open>int\<close> of a float: rounding towards zero.\<close>

definition py_int :: "real \<Rightarrow> int" where
  "py_int x = (if 0 \<le> x then \<lfloor>x\<rfloor> else \<lceil>x\<rceil>)"

text \<open>
  \<open>int(np.log10(x))\<close>: \<open>np.log10(0)\<close> is \<open>-inf\<close> and \<open>int\<close> of it raises
  \<open>OverflowError\<close>; \<open>np.log10\<close> of a negative number is NaN and \<open>int\<close> of it raises
  \<open>ValueError\<close>.
\<close>

definition int_log10 :: "real \<Rightarrow> py_error + int" where
  "int_log10 x =
     (if x = 0 then Inl OverflowError
      else if x < 0 then Inl ValueError
      else Inr (py_int (log 10 x)))"

text \<open>
  \<open>np.linspace(start, stop, num)\<close> and \<open>np.logspace(start, stop, num, base=10)\<close> with
  the end point included: a negative \<open>num\<close> is refused, one sample is \<open>start\<close> alone.
\<close>

definition linspace :: "real \<Rightarrow> real \<Rightarrow> int \<Rightarrow> py_error + real list" where
  "linspace start stop num =
     (if num < 0 then Inl ValueError
      else if num = 1 then Inr [start]
      else Inr (map (\<lambda>i. start + real i * ((stop - start) / real_of_int (num - 1)))
                  [0..<nat num]))"

definition logspace :: "real \<Rightarrow> real \<Rightarrow> int \<Rightarrow> py_error + real list" where
  "logspace start stop num =
     (case linspace start stop num of
        Inl e \<Rightarrow> Inl e
      | Inr ys \<Rightarrow> Inr (map (\<lambda>y. 10 powr y) ys))"

text \<open>
  \<open>if not xmax: xmax = max(self.df['sequence_length_template'])\<close>: the bound given by
  the caller unless it is \<open>None\<close> or 0, else the longest read.
\<close>

definition xmax_given :: "real option \<Rightarrow> bool" where
  "xmax_given xmax = (case xmax of None \<Rightarrow> False | Some x \<Rightarrow> x \<noteq> 0)"

definition resolve_xmax :: "real list \<Rightarrow> real option \<Rightarrow> py_error + real" where
  "resolve_xmax lens xmax =
     (case xmax of
        None \<Rightarrow> py_max lens
      | Some x \<Rightarrow> if x \<noteq> 0 then Inr x else py_max lens)"

text \<open>
  The bin edges of \<open>reads_len_distribution\<close>. In the logarithmic branch the arguments
  of \<open>np.logspace\<close> are evaluated from left to right: \<open>int(np.log10(xmin))\<close>,
  \<open>int(np.log10(xmax))+1\<close>, then \<open>int(xmax/win_size)\<close>. A zero \<open>win_size\<close> divides a
  Python number (\<open>ZeroDivisionError\<close>) when \<open>xmax\<close> came from the caller and a numpy
  integer (infinity, then \<open>OverflowError\<close> in \<open>int\<close>, or \<open>ValueError\<close> in
  \<open>arange\<close>) when it came from the data.
\<close>

definition len_bins :: "real \<Rightarrow> bool \<Rightarrow> real \<Rightarrow> bool \<Rightarrow> real \<Rightarrow> py_error + real list" where
  "len_bins win_size xlog xmin given xm =
     (if xlog then
        (case int_log10 xmin of
           Inl e \<Rightarrow> Inl e
         | Inr lo \<Rightarrow>
             (case int_log10 xm of
                Inl e \<Rightarrow> Inl e
              | Inr hi \<Rightarrow>
                  if win_size = 0
                  then Inl (if given then ZeroDivisionError else OverflowError)
                  else logspace (real_of_int lo) (real_of_int (hi + 1))
                         (py_int (xm / win_size))))
      else if win_size = 0 then Inl (if given then ZeroDivisionError else ValueError)
      else Inr (arange xmin xm win_size))"

text \<open>
  \<open>reads_len_distribution\<close> with \<open>normed=False\<close>: the bin edges and the counts of the
  histogram of \<open>sequence_length_template\<close>.
\<close>

definition reads_len_distribution ::
  "pycoQC \<Rightarrow> real \<Rightarrow> bool \<Rightarrow> real \<Rightarrow> real option \<Rightarrow> py_error + real list \<times> int list" where
  "reads_len_distribution self win_size xlog xmin xmax =
     (let lens = map (\<lambda>r. real_of_int (sequence_length_template r)) (df self)
      in case resolve_xmax lens xmax of
           Inl e \<Rightarrow> Inl e
         | Inr xm \<Rightarrow>
             (case len_bins win_size xlog xmin (xmax_given xmax) xm of
                Inl e \<Rightarrow> Inl e
              | Inr bins \<Rightarrow>
                  (case histogram lens bins of
                     Inl e \<Rightarrow> Inl e
                   | Inr counts \<Rightarrow> Inr (bins, counts))))"

section \<open>Inputs used in the examples\<close>

text \<open>A line of the file with every field present, and the row it becomes.\<close>

definition full_row ::
  "string \<Rightarrow> string \<Rightarrow> int \<Rightarrow> real \<Rightarrow> real \<Rightarrow> int \<Rightarrow> real \<Rightarrow> int \<Rightarrow> raw_row" where
  "full_row i u c s d l q e =
     \<lparr>raw_read_id = Some i, raw_run_id = Some u, raw_channel = Some c, raw_start_time = Some s,
      raw_duration = Some d, raw_sequence_length_template = Some l,
      raw_mean_qscore_template = Some q, raw_num_events = Some e,
      raw_other = [Some ''f.fast5'']\<rparr>"

definition mk_read ::
  "string \<Rightarrow> string \<Rightarrow> int \<Rightarrow> real \<Rightarrow> real \<Rightarrow> int \<Rightarrow> real \<Rightarrow> int \<Rightarrow> read" where
  "mk_read i u c s d l q e =
     \<lparr>read_id = i, run_id = u, channel = c, start_time = s, duration = d,
      sequence_length_template = l, mean_qscore_template = q, num_events = e\<rparr>"

text \<open>A file that has all columns, and an object over a frame that has all columns.\<close>

definition full_file :: "raw_row list \<Rightarrow> seq_summary" where
  "full_file rows = \<lparr>has_duration = True, has_num_events = True, lines = rows\<rparr>"

definition full_run :: "string \<Rightarrow> read list \<Rightarrow> pycoQC" where
  "full_run u rows =
     \<lparr>df = rows, runid = u, total_reads = int (length rows),
      with_duration = True, with_num_events = True\<rparr>"

text \<open>Two runs of one read each, run \<open>A\<close> first in the file.\<close>

definition tie_table :: "raw_row list" where
  "tie_table = [full_row ''r1'' ''A'' 1 0 10 100 9 50, full_row ''r2'' ''B'' 2 5 10 200 8 70]"

text \<open>Ten reads of run \<open>A\<close> followed by thirty reads of run \<open>B\<close>.\<close>

definition ab_table :: "raw_row list" where
  "ab_table = replicate 10 (full_row ''r'' ''A'' 1 0 10 100 9 50)
            @ replicate 30 (full_row ''s'' ''B'' 2 5 10 200 8 70)"

text \<open>Two reads of one run under the same \<open>read_id\<close>.\<close>

definition dup_table :: "raw_row list" where
  "dup_table = [full_row ''r1'' ''A'' 1 0 10 100 9 50, full_row ''r1'' ''A'' 2 5 10 200 8 70]"

text \<open>A single line whose \<open>duration\<close> is missing.\<close>

definition gap_table :: "raw_row list" where
  "gap_table = [(full_row ''r0'' ''A'' 1 0 10 100 9 50)\<lparr>raw_duration := None\<rparr>]"

text \<open>
  Five lines: a read of run \<open>A\<close>, a line of run \<open>A\<close> without \<open>duration\<close>, a read of run
  \<open>B\<close>, a line of run \<open>A\<close> whose value in another column is missing, and a second read of
  run \<open>A\<close>.
\<close>

definition mixed_table :: "raw_row list" where
  "mixed_table =
     [full_row ''r1'' ''A'' 1 0 10 100 9 50,
      (full_row ''r0'' ''A'' 1 0 10 100 9 50)\<lparr>raw_duration := None\<rparr>,
      full_row ''r2'' ''B'' 2 5 10 200 8 70,
      (full_row ''r3'' ''A'' 3 7 10 300 7 80)\<lparr>raw_other := [None]\<rparr>,
      full_row ''r4'' ''A'' 4 9 20 400 6 90]"

text \<open>
  The run of the specification's channel example: three reads on channel 1 and one on
  channel 5.
\<close>

definition spec_run :: pycoQC where
  "spec_run =
     full_run ''A''
       [mk_read ''a'' ''A'' 1 0 10 100 9 50, mk_read ''b'' ''A'' 5 5 10 200 8 70,
        mk_read ''c'' ''A'' 1 20 10 300 7 90, mk_read ''d'' ''A'' 1 40 10 400 9 110]"

text \<open>
  A run of three reads ending after 360 s, 1080 s and 1800 s, that is at 0.1 h, 0.3 h
  and 0.5 h, and a second object holding a single read of another run.
\<close>

definition late_run :: pycoQC where
  "late_run =
     full_run ''A''
       [mk_read ''a'' ''A'' 1 0 360 100 9 50, mk_read ''b'' ''A'' 5 720 360 200 8 70,
        mk_read ''c'' ''A'' 7 900 900 300 7 90]"

definition other_run :: pycoQC where
  "other_run = full_run ''B'' [mk_read ''x'' ''B'' 2 0 360 1000 6 500]"

text \<open>
  A run of two reads, of length 500 and quality 5 and of length 2400 and quality 20, and a
  run of two reads of quality 5 and 35.
\<close>

definition dist_run :: pycoQC where
  "dist_run =
     full_run ''A''
       [mk_read ''a'' ''A'' 1 0 360 500 5 50, mk_read ''b'' ''A'' 5 720 360 2400 20 70]"

definition qual_run :: pycoQC where
  "qual_run =
     full_run ''A''
       [mk_read ''a'' ''A'' 1 0 360 500 5 50, mk_read ''b'' ''A'' 5 720 360 2400 35 70]"

section \<open>Facts about the operations\<close>

subsection \<open>Rows and \<open>dropna\<close>\<close>

lemma no_missing_full_row [simp]: "no_missing f (full_row i u c s d l q e)"
  by (simp add: no_missing_def full_row_def)

lemma to_read_full_row [simp]: "to_read (full_row i u c s d l q e) = mk_read i u c s d l q e"
  by (simp add: to_read_def full_row_def mk_read_def field_value_def)

lemma full_file_sel [simp]:
  "lines (full_file rows) = rows" "has_duration (full_file rows)" "has_num_events (full_file rows)"
  by (simp_all add: full_file_def)

lemma full_run_sel [simp]:
  "df (full_run u rows) = rows" "runid (full_run u rows) = u"
  "total_reads (full_run u rows) = int (length rows)"
  "with_duration (full_run u rows)" "with_num_events (full_run u rows)"
  by (simp_all add: full_run_def)

lemma mk_read_sel [simp]:
  "read_id (mk_read i u c s d l q e) = i"
  "run_id (mk_read i u c s d l q e) = u"
  "channel (mk_read i u c s d l q e) = c"
  "start_time (mk_read i u c s d l q e) = s"
  "duration (mk_read i u c s d l q e) = d"
  "sequence_length_template (mk_read i u c s d l q e) = l"
  "mean_qscore_template (mk_read i u c s d l q e) = q"
  "num_events (mk_read i u c s d l q e) = e"
  by (simp_all add: mk_read_def)

lemma to_read_fields:
  "raw_read_id r \<noteq> None \<Longrightarrow> Some (read_id (to_read r)) = raw_read_id r"
  "raw_run_id r \<noteq> None \<Longrightarrow> Some (run_id (to_read r)) = raw_run_id r"
  "raw_channel r \<noteq> None \<Longrightarrow> Some (channel (to_read r)) = raw_channel r"
  "raw_start_time r \<noteq> None \<Longrightarrow> Some (start_time (to_read r)) = raw_start_time r"
  "raw_duration r \<noteq> None \<Longrightarrow> Some (duration (to_read r)) = raw_duration r"
  "raw_sequence_length_template r \<noteq> None \<Longrightarrow>
     Some (sequence_length_template (to_read r)) = raw_sequence_length_template r"
  "raw_mean_qscore_template r \<noteq> None \<Longrightarrow>
     Some (mean_qscore_template (to_read r)) = raw_mean_qscore_template r"
  "raw_num_events r \<noteq> None \<Longrightarrow> Some (num_events (to_read r)) = raw_num_events r"
  by (auto simp: to_read_def field_value_def)

lemma map_field:
  assumes "\<And>row. row \<in> set kept \<Longrightarrow> g row \<noteq> None"
    and "\<And>row. g row \<noteq> None \<Longrightarrow> Some (h (to_read row)) = g row"
  shows "map (\<lambda>r. Some (h r)) (map to_read kept) = map g kept"
  unfolding map_map comp_def by (rule map_cong) (use assms in auto)

lemma no_missing_full_file: "no_missing (full_file rows) = no_missing (full_file [])"
  by (rule ext) (simp add: no_missing_def)

lemma dropna_full_file_Cons:
  "dropna (full_file (r # rs)) =
     (if no_missing (full_file []) r then to_read r # dropna (full_file rs)
      else dropna (full_file rs))"
  by (simp add: dropna_def no_missing_full_file [of "r # rs"] no_missing_full_file [of rs])

lemma dropna_full_file_Nil [simp]: "dropna (full_file []) = []"
  by (simp add: dropna_def)

lemma dropna_full_file_append:
  "dropna (full_file (xs @ ys)) = dropna (full_file xs) @ dropna (full_file ys)"
  by (simp add: dropna_def no_missing_full_file [of "xs @ ys"] no_missing_full_file [of xs]
      no_missing_full_file [of ys])

lemma dropna_full_file_replicate:
  "dropna (full_file (replicate k (full_row i u c s d l q e)))
     = replicate k (mk_read i u c s d l q e)"
  by (simp add: dropna_def)

subsection \<open>64-bit sums\<close>

lemma int64_sum_small:
  "- (2 ^ 63) \<le> sum_list xs \<Longrightarrow> sum_list xs < 2 ^ 63 \<Longrightarrow> int64_sum xs = sum_list xs"
  by (simp add: int64_sum_def)

lemma int64_sum_wraps: "int64_sum [2 ^ 62, 2 ^ 62] = - (2 ^ 63)"
  by (simp add: int64_sum_def)

subsection \<open>\<open>value_counts\<close>\<close>

lemma set_unique_first: "set (unique_first xs) = set xs"
  by (induction xs) auto

lemma distinct_unique_first: "distinct (unique_first xs)"
  by (induction xs) (auto simp: set_unique_first)

lemma value_counts_entries:
  "set (value_counts b xs) = (\<lambda>k. (k, int (count_list xs k))) ` set xs"
  by (auto simp: value_counts_def Let_def set_unique_first)

lemma value_counts_keys:
  "set (map fst (value_counts b xs)) = set xs"
  by (simp add: value_counts_entries image_image)

lemma value_counts_distinct:
  "distinct (map fst (value_counts b xs))"
proof -
  have "inj_on fst (set (value_counts b xs))"
    by (auto simp: value_counts_entries inj_on_def)
  moreover have "distinct (value_counts b xs)"
    by (simp add: value_counts_def Let_def distinct_map distinct_unique_first inj_on_def)
  ultimately show ?thesis
    by (simp add: distinct_map)
qed

lemma map_of_value_counts:
  "map_of (value_counts b xs) k =
     (if k \<in> set xs then Some (int (count_list xs k)) else None)"
proof (cases "k \<in> set xs")
  case True
  then have "(k, int (count_list xs k)) \<in> set (value_counts b xs)"
    by (simp add: value_counts_entries)
  then show ?thesis
    using True by (simp add: value_counts_distinct)
next
  case False
  then have "k \<notin> fst ` set (value_counts b xs)"
    using value_counts_keys [of b xs] by simp
  then show ?thesis
    using False by (simp add: map_of_eq_None_iff)
qed

lemma series_loc_value_counts:
  "series_loc (value_counts b xs) k =
     (if k \<in> set xs then Inr (int (count_list xs k)) else Inl KeyError)"
  by (simp add: series_loc_def map_of_value_counts)

lemma value_counts_Nil_iff: "value_counts b xs = [] \<longleftrightarrow> xs = []"
  using value_counts_keys [of b xs] by (cases "value_counts b xs") auto

text \<open>
  The head of a stable sort is the first of the smallest elements: everything before it
  in the list is strictly larger, everything after it is at least as large.
\<close>

lemma hd_insort_key:
  "hd (insort_key g x ys) = (if ys = [] \<or> g x \<le> g (hd ys) then x else hd ys)"
  by (cases ys) auto

lemma sort_key_Nil_iff: "sort_key g l = [] \<longleftrightarrow> l = []"
  by (metis length_sort length_0_conv)

lemma hd_sort_key_split:
  "l \<noteq> [] \<Longrightarrow>
   \<exists>pre post. l = pre @ hd (sort_key g l) # post
     \<and> (\<forall>y \<in> set pre. g (hd (sort_key g l)) < g y)
     \<and> (\<forall>y \<in> set post. g (hd (sort_key g l)) \<le> g y)"
proof (induction l)
  case Nil
  then show ?case by simp
next
  case (Cons x xs)
  show ?case
  proof (cases "xs = []")
    case True
    then have "x # xs = [] @ hd (sort_key g (x # xs)) # []
        \<and> (\<forall>y \<in> set []. g (hd (sort_key g (x # xs))) < g y)
        \<and> (\<forall>y \<in> set []. g (hd (sort_key g (x # xs))) \<le> g y)"
      by simp
    then show ?thesis by blast
  next
    case False
    let ?m = "hd (sort_key g xs)"
    from Cons.IH [OF False] obtain pre post where
      s: "xs = pre @ ?m # post" "\<forall>y \<in> set pre. g ?m < g y" "\<forall>y \<in> set post. g ?m \<le> g y"
      by blast
    have ne: "sort_key g xs \<noteq> []" using False by (simp add: sort_key_Nil_iff)
    have h: "hd (sort_key g (x # xs)) = (if g x \<le> g ?m then x else ?m)"
      using ne by (simp add: hd_insort_key)
    show ?thesis
    proof (cases "g x \<le> g ?m")
      case True
      have "\<forall>y \<in> set xs. g x \<le> g y"
      proof
        fix y assume "y \<in> set xs"
        then have "y \<in> set pre \<or> y = ?m \<or> y \<in> set post"
          by (subst (asm) s(1)) auto
        then have "g ?m \<le> g y" using s(2,3) by auto
        with True show "g x \<le> g y" by simp
      qed
      then have "x # xs = [] @ hd (sort_key g (x # xs)) # xs
          \<and> (\<forall>y \<in> set []. g (hd (sort_key g (x # xs))) < g y)
          \<and> (\<forall>y \<in> set xs. g (hd (sort_key g (x # xs))) \<le> g y)"
        using True by (simp only: h) simp
      then show ?thesis by blast
    next
      case False
      then have "x # xs = (x # pre) @ hd (sort_key g (x # xs)) # post
          \<and> (\<forall>y \<in> set (x # pre). g (hd (sort_key g (x # xs))) < g y)
          \<and> (\<forall>y \<in> set post. g (hd (sort_key g (x # xs))) \<le> g y)"
        using s by (simp only: h) auto
      then show ?thesis by blast
    qed
  qed
qed

lemma filter_eq_appendD:
  "filter P l = a' @ k # b' \<Longrightarrow>
   \<exists>a b. l = a @ k # b \<and> filter P a = a' \<and> filter P b = b'"
proof (induction a' arbitrary: l)
  case Nil
  then obtain us vs where "l = us @ k # vs" "\<forall>u \<in> set us. \<not> P u" "b' = filter P vs"
    by (auto simp: filter_eq_Cons_iff)
  then have "l = us @ k # vs \<and> filter P us = [] \<and> filter P vs = b'" by simp
  then show ?case by blast
next
  case (Cons y a'')
  then obtain us vs where
    l: "l = us @ y # vs" "\<forall>u \<in> set us. \<not> P u" "P y" "a'' @ k # b' = filter P vs"
    by (auto simp: filter_eq_Cons_iff)
  from Cons.IH [OF l(4) [symmetric]] obtain a0 b0 where
    v: "vs = a0 @ k # b0" "filter P a0 = a''" "filter P b0 = b'"
    by blast
  have "l = (us @ y # a0) @ k # b0 \<and> filter P (us @ y # a0) = y # a'' \<and> filter P b0 = b'"
    using l v by simp
  then show ?case by blast
qed

text \<open>
  What stands before a value in the list of distinct values is what stands before its
  first appearance in the column.
\<close>

lemma unique_first_before:
  "unique_first xs = upre @ k # upost \<Longrightarrow> set upre = set (takeWhile (\<lambda>x. x \<noteq> k) xs)"
proof (induction xs arbitrary: upre upost)
  case Nil
  then show ?case by simp
next
  case (Cons x xs)
  note prems = Cons.prems and IH = Cons.IH
  show ?case
  proof (cases upre)
    case Nil
    with prems show ?thesis by simp
  next
    case (Cons u upre')
    with prems have u: "u = x"
      and f: "filter (\<lambda>y. y \<noteq> x) (unique_first xs) = upre' @ k # upost"
      by auto
    from f have "k \<in> set (filter (\<lambda>y. y \<noteq> x) (unique_first xs))" by simp
    then have kx: "k \<noteq> x" by simp
    from filter_eq_appendD [OF f] obtain a b where
      uf: "unique_first xs = a @ k # b" and fa: "filter (\<lambda>y. y \<noteq> x) a = upre'"
      by blast
    from IH [OF uf] have ih: "set a = set (takeWhile (\<lambda>x. x \<noteq> k) xs)" .
    have "set upre = insert x (set upre')" using Cons u by simp
    also have "set upre' = set a - {x}" using fa by auto
    also have "insert x (set a - {x}) = insert x (set a)" by auto
    also have "\<dots> = set (takeWhile (\<lambda>y. y \<noteq> k) (x # xs))" using ih kx by simp
    finally show ?thesis .
  qed
qed

lemma index0_value_counts:
  assumes "xs \<noteq> []"
  shows "\<exists>k. index0 (value_counts True xs) = Inr k \<and> k \<in> set xs
            \<and> (\<forall>j. count_list xs j \<le> count_list xs k)
            \<and> (\<forall>j \<in> set (takeWhile (\<lambda>x. x \<noteq> k) xs). count_list xs j < count_list xs k)"
proof -
  let ?c = "\<lambda>k. (k, int (count_list xs k))"
  let ?s = "map ?c (unique_first xs)"
  let ?g = "\<lambda>p :: 'a \<times> int. - snd p"
  have vc: "value_counts True xs = sort_key ?g ?s" by (simp add: value_counts_def)
  have ne: "?s \<noteq> []" using assms by (cases xs) auto
  from hd_sort_key_split [OF ne, of ?g] obtain pre post where
    sp: "?s = pre @ hd (sort_key ?g ?s) # post"
        "\<forall>y \<in> set pre. ?g (hd (sort_key ?g ?s)) < ?g y"
        "\<forall>y \<in> set post. ?g (hd (sort_key ?g ?s)) \<le> ?g y"
    by blast
  obtain k c where kc: "hd (sort_key ?g ?s) = (k, c)" by (cases "hd (sort_key ?g ?s)")
  have "(k, c) \<in> set ?s" by (subst sp(1)) (simp add: kc)
  then have k: "k \<in> set xs" and c: "c = int (count_list xs k)"
    by (auto simp: set_unique_first)
  have sne: "sort_key ?g ?s \<noteq> []" using ne by (simp add: sort_key_Nil_iff)
  have idx: "index0 (value_counts True xs) = Inr k"
    using sne kc unfolding vc index0_def by (cases "sort_key ?g ?s") auto
  have top: "count_list xs j \<le> count_list xs k" for j
  proof (cases "j \<in> set xs")
    case True
    then have "?c j \<in> set ?s" by (simp add: set_unique_first)
    then have "?c j \<in> set pre \<or> ?c j = (k, c) \<or> ?c j \<in> set post"
      by (subst (asm) sp(1)) (auto simp: kc)
    then show ?thesis using sp(2,3) by (auto simp: kc c)
  next
    case False
    then show ?thesis by simp
  qed
  have um: "unique_first xs = map fst pre @ k # map fst post"
  proof -
    have "map fst ?s = unique_first xs" by (simp add: comp_def)
    then show ?thesis by (subst (asm) sp(1)) (simp add: kc)
  qed
  have before: "count_list xs j < count_list xs k"
    if "j \<in> set (takeWhile (\<lambda>x. x \<noteq> k) xs)" for j
  proof -
    from that unique_first_before [OF um] have "j \<in> set (map fst pre)" by simp
    then obtain p where p: "p \<in> set pre" "fst p = j" by auto
    have "p \<in> set ?s" by (subst sp(1)) (use p in simp)
    then have "snd p = int (count_list xs j)" using p(2) by auto
    with sp(2) p(1) show ?thesis by (auto simp: kc c)
  qed
  from idx k top before show ?thesis by blast
qed

subsection \<open>The three outcomes of \<open>init\<close>\<close>

lemma init_supplied:
  assumes "s \<noteq> []"
  shows "init f (Some s) =
           (if s \<in> set (map run_id (dropna f))
            then Inr \<lparr>df = filter (\<lambda>r. run_id r = s) (dropna f), runid = s,
                      total_reads = int (count_list (map run_id (dropna f)) s),
                      with_duration = has_duration f, with_num_events = has_num_events f\<rparr>
            else Inl KeyError)"
  using assms by (simp add: init_def not_runid_def Let_def series_loc_value_counts)

lemma init_default_empty:
  assumes "not_runid rid" "dropna f = []"
  shows "init f rid = Inl IndexError"
  using assms by (simp add: init_def Let_def value_counts_def index0_def)

lemma init_default_nonempty:
  assumes "not_runid rid" "dropna f \<noteq> []"
  shows "\<exists>k. init f rid =
               Inr \<lparr>df = filter (\<lambda>r. run_id r = k) (dropna f), runid = k,
                     total_reads = int (count_list (map run_id (dropna f)) k),
                     with_duration = has_duration f, with_num_events = has_num_events f\<rparr>
             \<and> k \<in> set (map run_id (dropna f))
             \<and> (\<forall>j. count_list (map run_id (dropna f)) j \<le> count_list (map run_id (dropna f)) k)
             \<and> (\<forall>j \<in> set (takeWhile (\<lambda>x. x \<noteq> k) (map run_id (dropna f))).
                   count_list (map run_id (dropna f)) j < count_list (map run_id (dropna f)) k)"
proof -
  have "map run_id (dropna f) \<noteq> []" using assms(2) by simp
  from index0_value_counts [OF this] obtain k where
    k: "index0 (value_counts True (map run_id (dropna f))) = Inr k"
       "k \<in> set (map run_id (dropna f))"
       "\<forall>j. count_list (map run_id (dropna f)) j \<le> count_list (map run_id (dropna f)) k"
       "\<forall>j \<in> set (takeWhile (\<lambda>x. x \<noteq> k) (map run_id (dropna f))).
           count_list (map run_id (dropna f)) j < count_list (map run_id (dropna f)) k"
    by blast
  have "init f rid =
          Inr \<lparr>df = filter (\<lambda>r. run_id r = k) (dropna f), runid = k,
                total_reads = int (count_list (map run_id (dropna f)) k),
                with_duration = has_duration f, with_num_events = has_num_events f\<rparr>"
    using assms(1) k(1,2) by (simp add: init_def Let_def series_loc_value_counts)
  with k show ?thesis by blast
qed

lemma init_Inr_df:
  assumes "init f rid = Inr obj"
  shows "df obj = filter (\<lambda>r. run_id r = runid obj) (dropna f)"
proof (cases "not_runid rid")
  case True
  then have "dropna f \<noteq> []" using assms init_default_empty [OF True, of f] by auto
  from init_default_nonempty [OF True this] assms show ?thesis by auto
next
  case False
  then obtain s where "rid = Some s" "s \<noteq> []"
    by (auto simp: not_runid_def split: option.splits)
  then show ?thesis using assms by (auto simp: init_supplied split: if_splits)
qed

lemma count_list_run_id:
  "count_list (map run_id d) k = length (filter (\<lambda>r. run_id r = k) d)"
  by (induction d) auto

lemma init_Inr_total:
  assumes "init f rid = Inr obj"
  shows "total_reads obj = int (length (df obj))"
proof (cases "not_runid rid")
  case True
  then have "dropna f \<noteq> []" using assms init_default_empty [OF True, of f] by auto
  from init_default_nonempty [OF True this] assms show ?thesis
    by (auto simp: count_list_run_id)
next
  case False
  then obtain s where "rid = Some s" "s \<noteq> []"
    by (auto simp: not_runid_def split: option.splits)
  then show ?thesis
    using assms by (auto simp: init_supplied count_list_run_id split: if_splits)
qed

lemma init_Inr_columns:
  assumes "init f rid = Inr obj"
  shows "with_duration obj = has_duration f \<and> with_num_events obj = has_num_events f"
  using assms by (auto simp: init_def Let_def split: sum.splits if_splits option.splits)

lemma init_empty_string: "init f (Some []) = init f None"
  by (simp add: init_def not_runid_def)

section \<open>Construction\<close>

text \<open>
  Claim C10: when no row is left after the rows with missing values are dropped and no
  run identifier is given, construction raises an error (there is no first \<open>run_id\<close> to
  take, \<open>runid_counts.index[0]\<close> is an \<open>IndexError\<close>); it does not return an empty
  table with zero reads.
\<close>

theorem init_empty_table_fails:
  "dropna f = [] \<Longrightarrow> init f None = Inl IndexError"
  by (rule init_default_empty) (simp_all add: not_runid_def)

theorem init_empty_table_fails_witness:
  "dropna (full_file gap_table) = [] \<and> init (full_file gap_table) None = Inl IndexError"
proof -
  have e: "dropna (full_file gap_table) = []"
    by (simp add: gap_table_def dropna_def no_missing_def full_row_def)
  from init_empty_table_fails [OF e] e show ?thesis by simp
qed

text \<open>
  Claim C8: when a run identifier is supplied and it is not among the \<open>run_id\<close> values of
  the complete rows, construction fails with \<open>KeyError\<close> (raised by
  \<open>runid_counts.loc[self.runid]\<close>; this is the error the specification names
  \<open>UnknownRunIdError\<close>) and no object is built. Supplied is meant as the code means it in
  \<open>if not runid\<close>: any string but the empty one, which the code takes for no identifier
  (lemma \<open>init_empty_string\<close>).
\<close>

theorem init_unknown_runid:
  "s \<noteq> [] \<Longrightarrow> s \<notin> set (map run_id (dropna f)) \<Longrightarrow> init f (Some s) = Inl KeyError"
  by (simp add: init_supplied)

theorem init_unknown_runid_witness:
  "''Z'' \<noteq> [] \<and> ''Z'' \<notin> set (map run_id (dropna (full_file tie_table)))
   \<and> init (full_file tie_table) (Some ''Z'') = Inl KeyError"
proof -
  have a: "''Z'' \<noteq> []" by simp
  have b: "''Z'' \<notin> set (map run_id (dropna (full_file tie_table)))"
    by (simp add: tie_table_def dropna_full_file_Cons)
  from init_unknown_runid [OF a b] a b show ?thesis by simp
qed

text \<open>
  Claim C7: after construction the table is, field by field and in the order of the
  file, the list of those lines of the file that have no missing value in any column and
  whose \<open>run_id\<close> is the selected one, and no others. A line with a missing value is left
  out whatever its \<open>run_id\<close>, and that before the runs are counted: \<open>total_reads\<close> is the
  number of the lines kept.
\<close>

theorem init_run_table:
  assumes "init f rid = Inr obj"
  shows "let kept = filter (\<lambda>row. raw_read_id row \<noteq> None \<and> raw_run_id row = Some (runid obj)
                       \<and> raw_channel row \<noteq> None \<and> raw_start_time row \<noteq> None
                       \<and> (has_duration f \<longrightarrow> raw_duration row \<noteq> None)
                       \<and> raw_sequence_length_template row \<noteq> None
                       \<and> raw_mean_qscore_template row \<noteq> None
                       \<and> (has_num_events f \<longrightarrow> raw_num_events row \<noteq> None)
                       \<and> None \<notin> set (raw_other row)) (lines f)
         in map (\<lambda>r. Some (read_id r)) (df obj) = map raw_read_id kept
          \<and> map (\<lambda>r. Some (run_id r)) (df obj) = map raw_run_id kept
          \<and> map (\<lambda>r. Some (channel r)) (df obj) = map raw_channel kept
          \<and> map (\<lambda>r. Some (start_time r)) (df obj) = map raw_start_time kept
          \<and> (has_duration f \<longrightarrow> map (\<lambda>r. Some (duration r)) (df obj) = map raw_duration kept)
          \<and> map (\<lambda>r. Some (sequence_length_template r)) (df obj)
              = map raw_sequence_length_template kept
          \<and> map (\<lambda>r. Some (mean_qscore_template r)) (df obj)
              = map raw_mean_qscore_template kept
          \<and> (has_num_events f \<longrightarrow>
                map (\<lambda>r. Some (num_events r)) (df obj) = map raw_num_events kept)
          \<and> total_reads obj = int (length kept)
          \<and> with_duration obj = has_duration f \<and> with_num_events obj = has_num_events f"
proof -
  let ?keep = "\<lambda>row. raw_read_id row \<noteq> None \<and> raw_run_id row = Some (runid obj)
                       \<and> raw_channel row \<noteq> None \<and> raw_start_time row \<noteq> None
                       \<and> (has_duration f \<longrightarrow> raw_duration row \<noteq> None)
                       \<and> raw_sequence_length_template row \<noteq> None
                       \<and> raw_mean_qscore_template row \<noteq> None
                       \<and> (has_num_events f \<longrightarrow> raw_num_events row \<noteq> None)
                       \<and> None \<notin> set (raw_other row)"
  let ?kept = "filter ?keep (lines f)"
  have "df obj = filter (\<lambda>r. run_id r = runid obj) (dropna f)"
    using assms by (rule init_Inr_df)
  also have "\<dots> = map to_read
      (filter (\<lambda>row. no_missing f row \<and> run_id (to_read row) = runid obj) (lines f))"
    by (simp add: dropna_def filter_map comp_def)
  also have "filter (\<lambda>row. no_missing f row \<and> run_id (to_read row) = runid obj) (lines f) = ?kept"
  proof (rule filter_cong [OF refl])
    fix row
    have "run_id (to_read row) = runid obj \<longleftrightarrow> raw_run_id row = Some (runid obj)"
      if "raw_run_id row \<noteq> None"
      using that by (auto simp: to_read_def field_value_def)
    then show "(no_missing f row \<and> run_id (to_read row) = runid obj) = ?keep row"
      unfolding no_missing_def by blast
  qed
  finally have d: "df obj = map to_read ?kept" .
  have 1: "map (\<lambda>r. Some (read_id r)) (df obj) = map raw_read_id ?kept"
    unfolding d by (rule map_field) (simp_all add: to_read_fields)
  have 2: "map (\<lambda>r. Some (run_id r)) (df obj) = map raw_run_id ?kept"
    unfolding d by (rule map_field) (simp_all add: to_read_fields)
  have 3: "map (\<lambda>r. Some (channel r)) (df obj) = map raw_channel ?kept"
    unfolding d by (rule map_field) (simp_all add: to_read_fields)
  have 4: "map (\<lambda>r. Some (start_time r)) (df obj) = map raw_start_time ?kept"
    unfolding d by (rule map_field) (simp_all add: to_read_fields)
  have 5: "map (\<lambda>r. Some (duration r)) (df obj) = map raw_duration ?kept" if "has_duration f"
    unfolding d by (rule map_field) (simp_all add: to_read_fields that)
  have 6: "map (\<lambda>r. Some (sequence_length_template r)) (df obj)
              = map raw_sequence_length_template ?kept"
    unfolding d by (rule map_field) (simp_all add: to_read_fields)
  have 7: "map (\<lambda>r. Some (mean_qscore_template r)) (df obj)
              = map raw_mean_qscore_template ?kept"
    unfolding d by (rule map_field) (simp_all add: to_read_fields)
  have 8: "map (\<lambda>r. Some (num_events r)) (df obj) = map raw_num_events ?kept"
    if "has_num_events f"
    unfolding d by (rule map_field) (simp_all add: to_read_fields that)
  have 9: "total_reads obj = int (length ?kept)"
    using init_Inr_total [OF assms] by (simp add: d)
  have 10: "with_duration obj = has_duration f" and 11: "with_num_events obj = has_num_events f"
    using init_Inr_columns [OF assms] by simp_all
  show ?thesis
    unfolding Let_def
    by (intro conjI impI; (rule 1 2 3 4 6 7 9 10 11 | erule 5 | erule 8))
qed

theorem init_run_table_witness:
  "init (full_file mixed_table) (Some ''A'') =
     Inr (full_run ''A'' [mk_read ''r1'' ''A'' 1 0 10 100 9 50, mk_read ''r4'' ''A'' 4 9 20 400 6 90])
   \<and> has_duration (full_file mixed_table) \<and> has_num_events (full_file mixed_table)
   \<and> map raw_read_id mixed_table = [Some ''r1'', Some ''r0'', Some ''r2'', Some ''r3'', Some ''r4'']
   \<and> map (\<lambda>r. Some (read_id r))
        (df (full_run ''A'' [mk_read ''r1'' ''A'' 1 0 10 100 9 50,
                             mk_read ''r4'' ''A'' 4 9 20 400 6 90]))
       = [Some ''r1'', Some ''r4'']
   \<and> map (\<lambda>r. Some (duration r))
        (df (full_run ''A'' [mk_read ''r1'' ''A'' 1 0 10 100 9 50,
                             mk_read ''r4'' ''A'' 4 9 20 400 6 90]))
       = [Some 10, Some 20]
   \<and> total_reads (full_run ''A'' [mk_read ''r1'' ''A'' 1 0 10 100 9 50,
                                  mk_read ''r4'' ''A'' 4 9 20 400 6 90]) = 2"
proof -
  have d: "dropna (full_file mixed_table)
             = [mk_read ''r1'' ''A'' 1 0 10 100 9 50, mk_read ''r2'' ''B'' 2 5 10 200 8 70,
                mk_read ''r4'' ''A'' 4 9 20 400 6 90]"
    by (simp add: mixed_table_def dropna_full_file_Cons)
      (simp add: no_missing_def full_row_def)
  have e: "init (full_file mixed_table) (Some ''A'') =
     Inr (full_run ''A'' [mk_read ''r1'' ''A'' 1 0 10 100 9 50, mk_read ''r4'' ''A'' 4 9 20 400 6 90])"
    by (simp add: init_supplied d full_run_def)
  have m: "map raw_read_id mixed_table
             = [Some ''r1'', Some ''r0'', Some ''r2'', Some ''r3'', Some ''r4'']"
    by (simp add: mixed_table_def full_row_def)
  from init_run_table [OF e] e m show ?thesis by simp
qed

text \<open>
  Claim C3, as stated, fails: two reads of the selected run under one \<open>read_id\<close> do not
  stop construction. \<open>set_index("read_id")\<close> does not verify uniqueness and nothing else
  in \<open>__init__\<close> looks at \<open>read_id\<close>.
\<close>

theorem init_duplicate_counterexample:
  "\<not> distinct (map read_id (filter (\<lambda>r. run_id r = ''A'') (dropna (full_file dup_table))))
   \<and> init (full_file dup_table) None =
       Inr \<lparr>df = [mk_read ''r1'' ''A'' 1 0 10 100 9 50, mk_read ''r1'' ''A'' 2 5 10 200 8 70],
            runid = ''A'', total_reads = 2, with_duration = True, with_num_events = True\<rparr>
   \<and> init (full_file dup_table) (Some ''A'') =
       Inr \<lparr>df = [mk_read ''r1'' ''A'' 1 0 10 100 9 50, mk_read ''r1'' ''A'' 2 5 10 200 8 70],
            runid = ''A'', total_reads = 2, with_duration = True, with_num_events = True\<rparr>"
proof -
  have d: "dropna (full_file dup_table)
             = [mk_read ''r1'' ''A'' 1 0 10 100 9 50, mk_read ''r1'' ''A'' 2 5 10 200 8 70]"
    by (simp add: dup_table_def dropna_full_file_Cons)
  show ?thesis
    by (simp add: init_supplied init_def Let_def not_runid_def value_counts_def index0_def
        series_loc_def d)
qed

text \<open>
  Claim C3 (amended): whether or not \<open>read_id\<close> is unique, construction succeeds as soon
  as a run can be selected (a non-empty table without identifier, or a non-empty
  identifier that occurs in the data), and the table then holds every complete row of that
  run, rows with a repeated \<open>read_id\<close> included: nothing is deduplicated and no error
  about duplicates is raised.
\<close>

theorem init_keeps_duplicates:
  "(dropna f \<noteq> [] \<longrightarrow>
      (\<exists>obj. init f None = Inr obj
            \<and> df obj = filter (\<lambda>r. run_id r = runid obj) (dropna f)))
   \<and> (s \<noteq> [] \<and> s \<in> set (map run_id (dropna f)) \<longrightarrow>
      (\<exists>obj. init f (Some s) = Inr obj \<and> runid obj = s
            \<and> df obj = filter (\<lambda>r. run_id r = s) (dropna f)))"
proof (intro conjI impI)
  assume "dropna f \<noteq> []"
  from init_default_nonempty [OF _ this, of None]
  show "\<exists>obj. init f None = Inr obj \<and> df obj = filter (\<lambda>r. run_id r = runid obj) (dropna f)"
    by (auto simp: not_runid_def)
next
  assume "s \<noteq> [] \<and> s \<in> set (map run_id (dropna f))"
  then show "\<exists>obj. init f (Some s) = Inr obj \<and> runid obj = s
            \<and> df obj = filter (\<lambda>r. run_id r = s) (dropna f)"
    by (simp add: init_supplied)
qed

theorem init_keeps_duplicates_witness:
  "dropna (full_file dup_table) \<noteq> [] \<and> ''A'' \<noteq> []
   \<and> ''A'' \<in> set (map run_id (dropna (full_file dup_table)))
   \<and> (\<exists>obj. init (full_file dup_table) None = Inr obj
          \<and> df obj = filter (\<lambda>r. run_id r = runid obj) (dropna (full_file dup_table)))
   \<and> (\<exists>obj. init (full_file dup_table) (Some ''A'') = Inr obj \<and> runid obj = ''A''
          \<and> df obj = filter (\<lambda>r. run_id r = ''A'') (dropna (full_file dup_table))
          \<and> \<not> distinct (map read_id (df obj)))"
proof -
  have d: "dropna (full_file dup_table)
             = [mk_read ''r1'' ''A'' 1 0 10 100 9 50, mk_read ''r1'' ''A'' 2 5 10 200 8 70]"
    by (simp add: dup_table_def dropna_full_file_Cons)
  have a: "dropna (full_file dup_table) \<noteq> []" by (simp add: d)
  have b: "''A'' \<noteq> [] \<and> ''A'' \<in> set (map run_id (dropna (full_file dup_table)))"
    by (simp add: d)
  have c: "\<not> distinct (map read_id
              (filter (\<lambda>r. run_id r = ''A'') (dropna (full_file dup_table))))"
    by (simp add: d)
  from init_keeps_duplicates [of "full_file dup_table" "''A''"] a b c show ?thesis
    by auto
qed

text \<open>
  Claim C5: on a file with at least one complete row and no run identifier, construction
  succeeds and selects the \<open>run_id\<close> with the most rows: no \<open>run_id\<close> has more rows than
  the selected one, and every \<open>run_id\<close> that appears in the file before the first row of
  the selected one has strictly fewer, so that among the largest runs the one seen first
  is taken. \<open>total_reads\<close> is the number of rows of the selected run. For the counts
  \<open>{"A": 10, "B": 30}\<close> this is run \<open>B\<close> with 30 reads, and for one read of \<open>A\<close> followed
  by one read of \<open>B\<close> it is run \<open>A\<close>, as the witness shows.
\<close>

theorem init_default_largest_run:
  assumes "dropna f \<noteq> []"
  shows "\<exists>obj. init f None = Inr obj
           \<and> runid obj \<in> set (map run_id (dropna f))
           \<and> (\<forall>s. count_list (map run_id (dropna f)) s
                   \<le> count_list (map run_id (dropna f)) (runid obj))
           \<and> (\<forall>s \<in> set (takeWhile (\<lambda>x. x \<noteq> runid obj) (map run_id (dropna f))).
                 count_list (map run_id (dropna f)) s
                   < count_list (map run_id (dropna f)) (runid obj))
           \<and> total_reads obj = int (count_list (map run_id (dropna f)) (runid obj))
           \<and> total_reads obj = int (length (df obj))"
proof -
  from init_default_nonempty [OF _ assms, of None] show ?thesis
    by (auto simp: not_runid_def count_list_run_id)
qed

theorem init_default_largest_run_witness:
  "dropna (full_file ab_table) \<noteq> []
   \<and> count_list (map run_id (dropna (full_file ab_table))) ''A'' = 10
   \<and> count_list (map run_id (dropna (full_file ab_table))) ''B'' = 30
   \<and> (\<exists>obj. init (full_file ab_table) None = Inr obj \<and> runid obj = ''B''
          \<and> total_reads obj = 30)
   \<and> dropna (full_file tie_table) \<noteq> []
   \<and> map run_id (dropna (full_file tie_table)) = [''A'', ''B'']
   \<and> (\<exists>obj. init (full_file tie_table) None = Inr obj \<and> runid obj = ''A''
          \<and> total_reads obj = 1)"
proof -
  let ?ab = "map run_id (dropna (full_file ab_table))"
  let ?tie = "map run_id (dropna (full_file tie_table))"
  have d: "dropna (full_file ab_table) = replicate 10 (mk_read ''r'' ''A'' 1 0 10 100 9 50)
                            @ replicate 30 (mk_read ''s'' ''B'' 2 5 10 200 8 70)"
    by (simp add: ab_table_def dropna_full_file_append dropna_full_file_replicate)
  have cr: "count_list (replicate k x) y = (if x = y then k else 0)" for k and x y :: string
    by (induction k) auto
  have ne: "dropna (full_file ab_table) \<noteq> []" by (simp add: d)
  have cA: "count_list ?ab ''A'' = 10" and cB: "count_list ?ab ''B'' = 30"
    by (simp_all add: d cr)
  have ks: "set ?ab = {''A'', ''B''}"
    by (auto simp: d)
  from init_default_largest_run [OF ne] obtain obj where
    o: "init (full_file ab_table) None = Inr obj" "runid obj \<in> set ?ab"
       "\<forall>s. count_list ?ab s \<le> count_list ?ab (runid obj)"
       "total_reads obj = int (count_list ?ab (runid obj))"
    by blast
  from o(3) have "count_list ?ab ''B'' \<le> count_list ?ab (runid obj)" by blast
  with o(2) have "runid obj = ''B''"
    unfolding ks using cA cB by auto
  with o(1,4) cB
  have ab: "\<exists>obj. init (full_file ab_table) None = Inr obj \<and> runid obj = ''B''
              \<and> total_reads obj = 30"
    by auto
  have t: "dropna (full_file tie_table)
             = [mk_read ''r1'' ''A'' 1 0 10 100 9 50, mk_read ''r2'' ''B'' 2 5 10 200 8 70]"
    by (simp add: tie_table_def dropna_full_file_Cons)
  have tne: "dropna (full_file tie_table) \<noteq> []" by (simp add: t)
  have tids: "?tie = [''A'', ''B'']" by (simp add: t)
  from init_default_largest_run [OF tne] obtain obj' where
    p: "init (full_file tie_table) None = Inr obj'" "runid obj' \<in> set ?tie"
       "\<forall>s \<in> set (takeWhile (\<lambda>x. x \<noteq> runid obj') ?tie).
           count_list ?tie s < count_list ?tie (runid obj')"
       "total_reads obj' = int (count_list ?tie (runid obj'))"
    by blast
  have "runid obj' = ''A''"
  proof (rule ccontr)
    assume "runid obj' \<noteq> ''A''"
    with p(2) have b: "runid obj' = ''B''" by (simp add: tids)
    from p(3) show False by (simp add: b tids)
  qed
  with p(1,4)
  have tie: "\<exists>obj. init (full_file tie_table) None = Inr obj \<and> runid obj = ''A''
               \<and> total_reads obj = 1"
    by (auto simp: tids)
  from ne cA cB ab tne tids tie show ?thesis by blast
qed

section \<open>Channel activity\<close>

lemma fill_missing_append:
  "distinct ks \<Longrightarrow>
   fill_missing ks s = s @ map (\<lambda>i. (i, 0)) (filter (\<lambda>i. i \<notin> set (map fst s)) ks)"
proof (induction ks arbitrary: s)
  case Nil
  then show ?case by simp
next
  case (Cons i rest)
  have "filter (\<lambda>j. j \<noteq> i \<and> j \<notin> fst ` set s) rest = filter (\<lambda>j. j \<notin> fst ` set s) rest"
    using Cons.prems by (intro filter_cong) auto
  with Cons show ?case by auto
qed

lemma fill_missing_keys:
  "distinct ks \<Longrightarrow> set (map fst (fill_missing ks s)) = set (map fst s) \<union> set ks"
  by (auto simp: fill_missing_append image_iff)

lemma fill_missing_distinct:
  "distinct ks \<Longrightarrow> distinct (map fst s) \<Longrightarrow> distinct (map fst (fill_missing ks s))"
  by (auto simp: fill_missing_append distinct_map comp_def inj_on_def)

lemma range_1_512_props: "distinct range_1_512" "set range_1_512 = {1..511}"
  by (simp_all add: range_1_512_def)

lemma length_sort_index: "length (sort_index s) = length s"
  by (simp add: sort_index_def)

lemma channel_series_reads_length:
  assumes "channel_series n self ''reads'' = Inr s"
  shows "length s = card (channel ` set (df self) \<union> {1..511})"
proof -
  let ?s0 = "value_counts False (map channel (df self))"
  let ?f = "fill_missing range_1_512 ?s0"
  have s: "s = sort_index ?f"
    using assms by (simp add: channel_series_def level_series_def)
  have "distinct (map fst ?f)"
    by (rule fill_missing_distinct) (simp_all add: range_1_512_props value_counts_distinct)
  then have "length (map fst ?f) = card (set (map fst ?f))"
    by (simp only: distinct_card)
  also have "set (map fst ?f) = channel ` set (df self) \<union> {1..511}"
    using value_counts_keys [of False "map channel (df self)"]
    by (simp only: fill_missing_keys [OF range_1_512_props(1)] range_1_512_props(2)) simp
  finally show ?thesis by (simp add: s length_sort_index)
qed

lemma channels_activity_without_512:
  assumes "\<forall>r \<in> set (df self). 1 \<le> channel r \<and> channel r \<le> 511"
  shows "channels_activity n self ''reads'' = Inl ValueError"
proof -
  obtain s where s: "channel_series n self ''reads'' = Inr s"
    by (simp add: channel_series_def level_series_def)
  have "channel ` set (df self) \<union> {1..511} = {1..511}"
    using assms by auto
  with channel_series_reads_length [OF s] have "length s = 511" by simp
  then show ?thesis by (simp add: channels_activity_def s reshape_def)
qed

lemma series_by_keys:
  assumes "distinct (map fst s)"
  shows "map (\<lambda>k. (k, the (map_of s k))) (map fst s) = s"
proof -
  have "(fst p, the (map_of s (fst p))) = p" if "p \<in> set s" for p
  proof -
    have "map_of s (fst p) = Some (snd p)"
      by (rule map_of_is_SomeI) (use that assms in simp_all)
    then show ?thesis by simp
  qed
  then show ?thesis by (simp add: comp_def map_idI)
qed

lemma sort_index_sorted: "sorted (map fst (sort_index s))"
  by (simp add: sort_index_def)

lemma sort_index_set: "set (sort_index s) = set s"
  by (simp add: sort_index_def)

lemma sort_index_distinct:
  "distinct (map fst s) \<Longrightarrow> distinct (map fst (sort_index s))"
  by (simp add: sort_index_def distinct_map)

lemma sort_index_keys:
  assumes "distinct (map fst s)" "set (map fst s) = {a..b}"
  shows "map fst (sort_index s) = [a..b]"
proof (rule sorted_distinct_set_unique)
  show "sorted (map fst (sort_index s))" by (rule sort_index_sorted)
  show "distinct (map fst (sort_index s))" using assms(1) by (rule sort_index_distinct)
  show "set (map fst (sort_index s)) = set [a..b]"
    using assms(2) by (simp add: sort_index_set)
qed simp_all

lemma map_of_sort_index:
  assumes "distinct (map fst s)"
  shows "map_of (sort_index s) = map_of s"
  using assms by (simp add: map_of_inject_set sort_index_distinct sort_index_set)

lemma map_of_fill_missing:
  assumes "distinct ks" "distinct (map fst s)"
  shows "map_of (fill_missing ks s) k =
           (case map_of s k of Some v \<Rightarrow> Some v
            | None \<Rightarrow> if k \<in> set ks then Some 0 else None)"
proof -
  have "map_of (map (\<lambda>i. (i, 0::int)) (filter (\<lambda>i. i \<notin> set (map fst s)) ks)) k =
          (if k \<in> set ks \<and> k \<notin> set (map fst s) then Some 0 else None)"
    by (induction ks) auto
  moreover have "map_of s k = None \<longleftrightarrow> k \<notin> set (map fst s)"
    by (simp add: map_of_eq_None_iff)
  ultimately show ?thesis
    using assms(1)
    by (cases "map_of s k") (simp_all add: fill_missing_append map_add_def)
qed

lemma channel_series_reads:
  "\<exists>s. channel_series n self ''reads'' = Inr s
       \<and> distinct (map fst s) \<and> sorted (map fst s)
       \<and> set (map fst s) = channel ` set (df self) \<union> {1..511}
       \<and> (\<forall>k \<in> set (map fst s). map_of s k = Some (int (count_list (map channel (df self)) k)))"
proof -
  let ?s0 = "value_counts False (map channel (df self))"
  let ?f = "fill_missing range_1_512 ?s0"
  have s: "channel_series n self ''reads'' = Inr (sort_index ?f)"
    by (simp add: channel_series_def level_series_def)
  have d: "distinct (map fst ?f)"
    by (rule fill_missing_distinct) (simp_all add: range_1_512_props value_counts_distinct)
  have k: "set (map fst ?f) = channel ` set (df self) \<union> {1..511}"
    using value_counts_keys [of False "map channel (df self)"]
    by (simp only: fill_missing_keys [OF range_1_512_props(1)] range_1_512_props(2)) simp
  have v: "map_of ?f k = Some (int (count_list (map channel (df self)) k))"
    if "k \<in> channel ` set (df self) \<union> {1..511}" for k
  proof (cases "k \<in> channel ` set (df self)")
    case True
    then show ?thesis
      by (simp add: map_of_fill_missing range_1_512_props value_counts_distinct
          map_of_value_counts)
  next
    case False
    then have "count_list (map channel (df self)) k = 0" by simp
    with False that show ?thesis
      by (simp add: map_of_fill_missing range_1_512_props value_counts_distinct
          map_of_value_counts)
  qed
  have "set (map fst (sort_index ?f)) = channel ` set (df self) \<union> {1..511}"
    using k by (simp add: sort_index_set)
  with s d v show ?thesis
    by (simp add: sort_index_sorted sort_index_distinct map_of_sort_index del: set_map)
qed

lemma sum_series_values:
  assumes "distinct (map fst s)"
    and "\<forall>k \<in> set (map fst s). map_of s k = Some (int (count_list xs k))"
    and "set xs \<subseteq> set (map fst s)"
  shows "sum_list (map snd s) = int (length xs)"
proof -
  have "map snd s = map (\<lambda>k. int (count_list xs k)) (map fst s)"
  proof -
    have "map snd (map (\<lambda>k. (k, the (map_of s k))) (map fst s))
            = map (\<lambda>k. int (count_list xs k)) (map fst s)"
      using assms(2) by (simp add: comp_def)
    then show ?thesis by (simp only: series_by_keys [OF assms(1)])
  qed
  then have "sum_list (map snd s) = (\<Sum>k \<in> set (map fst s). int (count_list xs k))"
    using assms(1) by (simp only: sum_list_distinct_conv_sum_set)
  also have "\<dots> = int (\<Sum>k \<in> set (map fst s). count_list xs k)" by simp
  also have "(\<Sum>k \<in> set (map fst s). count_list xs k) = length xs"
    by (rule sum_count_set) (use assms(3) in simp_all)
  finally show ?thesis .
qed

lemma channel_series_reads_with_512:
  assumes "\<forall>r \<in> set (df self). 1 \<le> channel r \<and> channel r \<le> 512"
    and "\<exists>r \<in> set (df self). channel r = 512"
  shows "\<exists>s. channel_series n self ''reads'' = Inr s \<and> map fst s = [1..512]
            \<and> sum_list (map snd s) = int (length (df self))"
proof -
  from channel_series_reads [of n self] obtain s where
    s: "channel_series n self ''reads'' = Inr s" "distinct (map fst s)" "sorted (map fst s)"
       "set (map fst s) = channel ` set (df self) \<union> {1..511}"
       "\<forall>k \<in> set (map fst s). map_of s k = Some (int (count_list (map channel (df self)) k))"
    by blast
  have ks: "channel ` set (df self) \<union> {1..511} = {1..512}"
    using assms by (auto simp: image_iff) force
  have "map fst s = [1..512]"
    by (rule sorted_distinct_set_unique) (use s ks in simp_all)
  moreover have "sum_list (map snd s) = int (length (map channel (df self)))"
    by (rule sum_series_values) (use s in auto)
  ultimately show ?thesis using s(1) by simp
qed

text \<open>
  Claim C1 on the specification's own example (three reads on channel 1, one on
  channel 5, level \<open>"reads"\<close>): the filling loop runs over \<open>range(1, 512)\<close>, which ends
  at 511, so the series has the 511 keys 1..511 and no entry for channel 512, and
  \<open>reshape(16, 32)\<close> of its 511 values raises \<open>ValueError\<close>. The claim asks for 512
  entries with keys 1..512.
\<close>

theorem channels_activity_spec_example:
  "channels_activity None spec_run ''reads'' = Inl ValueError
   \<and> map_sum id (map fst) (channel_series None spec_run ''reads'') = Inr [1..511]
   \<and> map_sum id (\<lambda>s. (map_of s 1, map_of s 5, map_of s 512))
        (channel_series None spec_run ''reads'') = Inr (Some 3, Some 1, None)"
proof -
  from channel_series_reads [of None spec_run] obtain s where
    s: "channel_series None spec_run ''reads'' = Inr s" "distinct (map fst s)"
       "sorted (map fst s)"
       "set (map fst s) = channel ` set (df spec_run) \<union> {1..511}"
       "\<forall>k \<in> set (map fst s). map_of s k = Some (int (count_list (map channel (df spec_run)) k))"
    by blast
  have ks: "set (map fst s) = {1..511}"
    unfolding s(4) by (auto simp: spec_run_def full_run_def)
  have keys: "map fst s = [1..511]"
    by (rule sorted_distinct_set_unique) (use s ks in simp_all)
  have "1 \<in> set (map fst s)" "5 \<in> set (map fst s)"
    by (simp_all only: ks) simp_all
  with s(5) have "map_of s 1 = Some (int (count_list (map channel (df spec_run)) 1))"
    "map_of s 5 = Some (int (count_list (map channel (df spec_run)) 5))"
    by blast+
  then have "map_of s 1 = Some 3" "map_of s 5 = Some 1"
    by (simp_all add: spec_run_def)
  moreover have "map_of s 512 = None"
  proof -
    have "512 \<notin> set (map fst s)" by (simp only: ks) simp
    then show ?thesis by (simp add: map_of_eq_None_iff)
  qed
  moreover have "channels_activity None spec_run ''reads'' = Inl ValueError"
    by (rule channels_activity_without_512) (simp add: spec_run_def full_run_def)
  ultimately show ?thesis using s(1) keys by simp
qed

section \<open>Windows over time\<close>

lemma run_columns [simp]:
  "with_duration late_run" "with_num_events late_run"
  "with_duration other_run" "with_num_events other_run"
  by (simp_all add: late_run_def other_run_def)

lemma upt_2: "[0..<2] = [0, Suc 0]"
  by (simp add: upt_rec numeral_2_eq_2)

lemma arange_half_quarter: "arange 0 (1/2) (1/4) = [0, 1/4]"
  by (simp add: arange_def upt_2)

lemma late_windows:
  "time_windows (df late_run) (1/4) =
     Inr [(0, [mk_read ''a'' ''A'' 1 0 360 100 9 50]),
          (1/4, [mk_read ''b'' ''A'' 5 720 360 200 8 70])]"
  by (simp add: time_windows_def py_max_def late_run_def full_run_def end_time_def arange_half_quarter
      window_rows_def)

lemma other_windows:
  "time_windows (df other_run) (1/4) = Inr [(0, [mk_read ''x'' ''B'' 2 0 360 1000 6 500])]"
  by (simp add: time_windows_def py_max_def other_run_def full_run_def end_time_def arange_def
      window_rows_def)

lemma output_over_time_ignores_self:
  "output_over_time n self level w = output_over_time n self' level w"
  by (simp add: output_over_time_def output_table_def)

lemma level_series_ignores_self:
  "level \<noteq> ''reads'' \<Longrightarrow> level_series n self level = level_series n self' level"
  by (simp add: level_series_def)

text \<open>
  Claim C2 on a run of three reads ending at 0.1 h, 0.3 h and 0.5 h, with windows of
  0.25 h: \<open>np.arange(0, 0.5, 0.25)\<close> leaves out its stop value, so the windows are
  \<open>[0, 0.25)\<close> and \<open>[0.25, 0.5)\<close> and the read that ends last, at exactly 0.5 h, is in
  neither. The windows hold two of the three reads; the claim asks for every read in
  exactly one window.
\<close>

theorem time_windows_lose_last_read:
  "df late_run = [mk_read ''a'' ''A'' 1 0 360 100 9 50, mk_read ''b'' ''A'' 5 720 360 200 8 70,
                  mk_read ''c'' ''A'' 7 900 900 300 7 90]
   \<and> end_time (mk_read ''c'' ''A'' 7 900 900 300 7 90) = 1/2
   \<and> time_windows (df late_run) (1/4) =
        Inr [(0, [mk_read ''a'' ''A'' 1 0 360 100 9 50]),
             (1/4, [mk_read ''b'' ''A'' 5 720 360 200 8 70])]
   \<and> output_over_time (Some late_run) late_run ''reads'' (1/4) = Inr [(0, 1), (1/4, 1)]
   \<and> quality_over_time late_run (1/4) =
        Inr [(0, \<lparr>w_mean = Some 9, w_min = Some 9, w_max = Some 9,
                  w_q1 = Some 9, w_q3 = Some 9\<rparr>),
             (1/4, \<lparr>w_mean = Some 8, w_min = Some 8, w_max = Some 8,
                    w_q1 = Some 8, w_q3 = Some 8\<rparr>)]"
  by (simp add: output_over_time_def output_table_def quality_over_time_def late_windows
      series_mean_def series_min_def series_max_def quantile_def)
    (simp add: late_run_def full_run_def end_time_def)

text \<open>
  Claim C9 on \<open>output_over_time\<close> and \<open>channels_activity\<close>: the same query on the same
  receiver gives \<open>NameError\<close> when the global name \<open>n\<close> is unbound, the windows of the
  receiver when \<open>n\<close> happens to be the receiver, and the windows of another object when
  \<open>n\<close> is bound to that one. The result follows the global \<open>n\<close> and not the receiver
  (lemma \<open>output_over_time_ignores_self\<close>); the claim asks for a result that depends on
  the receiver and the arguments only.
\<close>

theorem output_over_time_reads_global:
  "output_over_time None late_run ''reads'' (1/4) = Inl NameError
   \<and> output_over_time (Some late_run) late_run ''reads'' (1/4) = Inr [(0, 1), (1/4, 1)]
   \<and> output_over_time (Some other_run) late_run ''reads'' (1/4) = Inr [(0, 1)]
   \<and> channels_activity None late_run ''bases'' = Inl NameError
   \<and> channels_activity None late_run ''events'' = Inl NameError"
  by (simp add: output_over_time_def output_table_def late_windows other_windows
      channels_activity_def channel_series_def level_series_def)

section \<open>Value distributions\<close>

lemma length_np_diff: "length (np_diff xs) = length xs - 1"
  by (induction xs rule: np_diff.induct) auto

lemma sum_np_diff: "xs \<noteq> [] \<Longrightarrow> sum_list (np_diff xs) = last xs - hd xs"
  by (induction xs rule: np_diff.induct) auto

lemma nth_np_diff: "i + 1 < length xs \<Longrightarrow> np_diff xs ! i = xs ! (i + 1) - xs ! i"
proof (induction xs arbitrary: i rule: np_diff.induct)
  case (1 x y rest)
  then show ?case by (cases i) auto
qed auto

lemma count_between_closed:
  "h \<le> l \<Longrightarrow>
   searchsorted_right a l - searchsorted_left a h
     = int (length (filter (\<lambda>v. h \<le> v \<and> v \<le> l) a))"
  unfolding searchsorted_right_def searchsorted_left_def
  by (induction a) auto

lemma count_between_open:
  "h \<le> l \<Longrightarrow>
   searchsorted_left a l - searchsorted_left a h
     = int (length (filter (\<lambda>v. h \<le> v \<and> v < l) a))"
  unfolding searchsorted_left_def
  by (induction a) auto

text \<open>The cumulative counts from which the histogram takes differences.\<close>

lemma histogram_Inr:
  assumes "histogram a bins = Inr counts" "2 \<le> length bins"
  shows "sorted bins"
    and "counts = np_diff (if a = [] then map (\<lambda>e. 0) bins
                           else map (searchsorted_left a) (butlast bins)
                                @ [searchsorted_right a (last bins)])"
  using assms by (auto simp: histogram_def split: if_splits)

lemma histogram_length:
  assumes "histogram a bins = Inr counts" "2 \<le> length bins"
  shows "length counts = length bins - 1"
  using histogram_Inr [OF assms] by (simp add: length_np_diff)

lemma histogram_sum:
  assumes "histogram a bins = Inr counts" "2 \<le> length bins"
  shows "sum_list counts = int (length (filter (\<lambda>v. hd bins \<le> v \<and> v \<le> last bins) a))"
proof (cases "a = []")
  case True
  have "sum_list (np_diff (map (\<lambda>e. 0) bins)) = 0"
    using assms(2) by (cases bins) (simp_all add: sum_np_diff last_map hd_map)
  then show ?thesis using histogram_Inr(2) [OF assms] True by simp
next
  case False
  obtain b0 b1 rest where bins: "bins = b0 # b1 # rest"
    using assms(2) by (cases bins; cases "tl bins") auto
  have le: "hd bins \<le> last bins"
    using histogram_Inr(1) [OF assms] unfolding bins by auto
  let ?cum = "map (searchsorted_left a) (butlast bins) @ [searchsorted_right a (last bins)]"
  have "sum_list (np_diff ?cum) = last ?cum - hd ?cum"
    by (rule sum_np_diff) simp
  also have "\<dots> = searchsorted_right a (last bins) - searchsorted_left a (hd bins)"
    unfolding bins by simp
  also have "\<dots> = int (length (filter (\<lambda>v. hd bins \<le> v \<and> v \<le> last bins) a))"
    using le by (rule count_between_closed)
  finally show ?thesis using histogram_Inr(2) [OF assms] False by simp
qed

lemma histogram_nth:
  assumes "histogram a bins = Inr counts" "2 \<le> length bins" "i < length counts"
  shows "counts ! i =
           int (length (filter (\<lambda>v. bins ! i \<le> v
                  \<and> (if i + 2 = length bins then v \<le> bins ! (i + 1) else v < bins ! (i + 1))) a))"
proof (cases "a = []")
  case True
  have i: "i + 1 < length bins"
    using assms(3) histogram_length [OF assms(1,2)] by simp
  have "np_diff (map (\<lambda>e. 0) bins) ! i = 0"
    using i by (simp add: nth_np_diff)
  then show ?thesis using histogram_Inr(2) [OF assms(1,2)] True by simp
next
  case False
  have i: "i + 1 < length bins"
    using assms(3) histogram_length [OF assms(1,2)] by simp
  have srt: "sorted bins" by (rule histogram_Inr(1) [OF assms(1,2)])
  have le: "bins ! i \<le> bins ! (i + 1)"
    using srt i by (simp add: sorted_iff_nth_mono)
  let ?cum = "map (searchsorted_left a) (butlast bins) @ [searchsorted_right a (last bins)]"
  have len: "length ?cum = length bins" using assms(2) by simp
  have "i < length (butlast bins)" using i by simp
  then have lo: "?cum ! i = searchsorted_left a (bins ! i)"
    by (simp add: nth_append nth_butlast)
  have hi: "?cum ! (i + 1) = (if i + 2 = length bins then searchsorted_right a (bins ! (i + 1))
                              else searchsorted_left a (bins ! (i + 1)))"
  proof (cases "i + 2 = length bins")
    case True
    then have "i + 1 = length (butlast bins)" by simp
    then have "?cum ! (i + 1) = searchsorted_right a (last bins)"
      by (simp add: nth_append)
    moreover have "last bins = bins ! (i + 1)"
      using True by (metis add_diff_cancel_right' assms(2) last_conv_nth list.size(3)
          not_numeral_le_zero one_add_one add.assoc)
    ultimately show ?thesis using True by simp
  next
    case False
    then have "i + 1 < length (butlast bins)" using i by simp
    then show ?thesis using False by (simp add: nth_append nth_butlast)
  qed
  have "counts ! i = ?cum ! (i + 1) - ?cum ! i"
    using histogram_Inr(2) [OF assms(1,2)] False i len by (simp add: nth_np_diff)
  then show ?thesis
    using lo hi le count_between_closed [OF le, of a] count_between_open [OF le, of a]
    by (simp split: if_splits)
qed

lemma upt_3: "[0..<3] = [0, 1, 2]"
  by (simp add: upt_rec)

lemma arange_0_40_16: "arange 0 40 16 = [0, 16, 32]"
  by (simp add: arange_def upt_3)

lemma arange_0_3000_1000: "arange 0 3000 1000 = [0, 1000, 2000]"
  by (simp add: arange_def upt_3)

lemma qual_run_qual:
  "mean_qual_distribution qual_run 16 0 40 = Inr ([0, 16, 32], [1, 0])"
  by (simp add: mean_qual_distribution_def arange_0_40_16 histogram_def qual_run_def full_run_def
      searchsorted_left_def searchsorted_right_def)

lemma dist_run_len:
  "reads_len_distribution dist_run 1000 False 0 (Some 3000) = Inr ([0, 1000, 2000], [1, 0])"
  by (simp add: reads_len_distribution_def resolve_xmax_def len_bins_def arange_0_3000_1000
      histogram_def dist_run_def full_run_def searchsorted_left_def searchsorted_right_def)







text \<open>
  Claim C6 on two inputs. For the read lengths 500 and 2400 with the bounds 0 and 3000 and
  the bin width 1000, the edges are \<open>np.arange(0, 3000, 1000)\<close>, that is 0, 1000 and 2000:
  the stop value 3000 is left out, there is no bin above 2000, and the read of length 2400
  is counted nowhere. The counts sum to 1, the claim asks for the 2 reads with a length in
  \<open>[0, 3000)\<close>. For the qualities 5 and 35 with the bin width 16, the edges
  \<open>np.arange(0, 40, 16)\<close> are 0, 16 and 32, and the read of quality 35 is counted nowhere
  although it lies in \<open>[0, 40)\<close>.
\<close>

theorem value_range_loses_top_bin:
  "reads_len_distribution dist_run 1000 False 0 (Some 3000) = Inr ([0, 1000, 2000], [1, 0])
   \<and> sum_list [1, 0 :: int] = 1
   \<and> length (filter (\<lambda>r. 0 \<le> real_of_int (sequence_length_template r)
                         \<and> real_of_int (sequence_length_template r) < 3000)
               (df dist_run)) = 2
   \<and> mean_qual_distribution qual_run 16 0 40 = Inr ([0, 16, 32], [1, 0])
   \<and> length (filter (\<lambda>r. 0 \<le> mean_qscore_template r \<and> mean_qscore_template r < 40)
               (df qual_run)) = 2"
  by (simp add: qual_run_qual dist_run_len) (simp add: dist_run_def qual_run_def full_run_def)




end
